theory Spec2Isabelle
  imports Main "HOL-Library.Word" "HOL-Library.AList" "HOL-Library.Sublist"
begin

section \<open>Data: Python strings, JSON values, question records\<close>

text \<open>
  A Python \<open>str\<close> is a sequence of Unicode code points: \<open>stem[-10:]\<close> takes ten code
  points, not ten bytes, and the dangling tokens of \<open>is_question_incomplete\<close> are
  code points beyond ASCII. A string is therefore a list of code points.
\<close>

type_synonym ustring = "nat list"

definition ascii :: "string \<Rightarrow> ustring" where
  "ascii s = map of_char s"

text \<open>
  What \<open>json.loads\<close> returns. A float is its IEEE 754 bit pattern; no operation of the
  program looks into one.
\<close>

datatype json =
    JNull
  | JBool bool
  | JInt int
  | JFloat "64 word"
  | JStr ustring
  | JArr "json list"
  | JObj "(ustring \<times> json) list"

text \<open>
  A question is a Python \<open>dict\<close> as the extraction service returned it: keys in insertion
  order, any JSON value under a key. \<open>q.get(k, d)\<close> is \<open>dict_get\<close>; the assignment
  \<open>q[k] = v\<close> is \<open>AList.update k v q\<close> (the value is replaced where the key stands, a new
  key goes to the end). A dict holds a key once; a lookup reads the first entry of a key.
\<close>

type_synonym question = "(ustring \<times> json) list"

definition dict_get :: "question \<Rightarrow> ustring \<Rightarrow> json \<Rightarrow> json" where
  "dict_get q k d = (case map_of q k of None \<Rightarrow> d | Some v \<Rightarrow> v)"

datatype error =
    TypeError
  | AttributeError
  | ValueError
  | RecursionError
  | UnicodeDecodeError
  | UnicodeEncodeError

section \<open>String operations of the interpreter\<close>

text \<open>\<open>xs[-10:]\<close>: the last ten elements, all of them when there are fewer.\<close>

definition last10 :: "'a list \<Rightarrow> 'a list" where
  "last10 xs = drop (length xs - 10) xs"

text \<open>\<open>t in s\<close> on strings: \<open>t\<close> occurs in \<open>s\<close> as a contiguous run.\<close>

fun py_contains :: "'a list \<Rightarrow> 'a list \<Rightarrow> bool" where
  "py_contains t [] = (t = [])"
| "py_contains t (c # s) = (take (length t) (c # s) = t \<or> py_contains t s)"

text \<open>\<open>s.endswith(t)\<close>.\<close>

definition endswith :: "'a list \<Rightarrow> 'a list \<Rightarrow> bool" where
  "endswith s t = (length t \<le> length s \<and> drop (length s - length t) s = t)"

text \<open>
  \<open>str.isspace\<close> on one code point, which decides what \<open>str.strip()\<close> removes: the
  code points the interpreter classifies as whitespace.
\<close>

definition py_isspace :: "nat \<Rightarrow> bool" where
  "py_isspace c =
     ((9 \<le> c \<and> c \<le> 13) \<or> (28 \<le> c \<and> c \<le> 32) \<or> c = 133 \<or> c = 160 \<or> c = 5760
      \<or> (8192 \<le> c \<and> c \<le> 8202) \<or> c = 8232 \<or> c = 8233 \<or> c = 8239 \<or> c = 8287
      \<or> c = 12288)"

definition py_strip :: "ustring \<Rightarrow> ustring" where
  "py_strip s = rev (dropWhile py_isspace (rev (dropWhile py_isspace s)))"

section \<open>The incompleteness heuristic\<close>

text \<open>
  \<open>is_question_incomplete\<close> (core.py, lines 136 to 152). The choice-letter markers are
  \<open>"A."\<close>, \<open>"B."\<close>, \<open>"C."\<close>, \<open>"D."\<close>; the dangling tokens are the full-width comma
  U+FF0C, the comma, the full-width colon U+FF1A, the colon, and the four characters
  U+5982 U+56FE U+6240 U+793A ("as shown in the figure").
\<close>

definition choice_letters :: "ustring list" where
  "choice_letters = [ascii ''A.'', ascii ''B.'', ascii ''C.'', ascii ''D.'']"

definition dangling_tokens :: "ustring list" where
  "dangling_tokens = [[65292], ascii '','', [65306], ascii '':'', [22914, 22270, 25152, 31034]]"

text \<open>
  \<open>letter in stem[-10:]\<close>. The stem is whatever stands under \<open>stem_text\<close>: a string is
  searched for the marker, a list is sliced and searched for an element equal to the
  marker, and anything else cannot be sliced. \<open>None\<close>, a boolean and a number raise
  TypeError; a dict is asked for the slice as a key and raises too (TypeError, or
  KeyError from Python 3.12 on). Every one of them leaves \<open>main\<close> in the same way, so
  the model gives them one name.
\<close>

definition letter_in_tail :: "json \<Rightarrow> ustring \<Rightarrow> error + bool" where
  "letter_in_tail stem letter =
     (case stem of
        JStr s \<Rightarrow> Inr (py_contains letter (last10 s))
      | JArr xs \<Rightarrow> Inr (JStr letter \<in> set (last10 xs))
      | _ \<Rightarrow> Inl TypeError)"

text \<open>\<open>any(letter in stem[-10:] for letter in [...])\<close>, left to right, stopping at the first hit.\<close>

fun any_letter :: "json \<Rightarrow> ustring list \<Rightarrow> error + bool" where
  "any_letter stem [] = Inr False"
| "any_letter stem (l # ls) =
     (case letter_in_tail stem l of
        Inl e \<Rightarrow> Inl e
      | Inr hit \<Rightarrow> if hit then Inr True else any_letter stem ls)"

text \<open>\<open>stem.endswith((...))\<close>: only a string has the method.\<close>

definition stem_endswith :: "json \<Rightarrow> ustring list \<Rightarrow> error + bool" where
  "stem_endswith stem toks =
     (case stem of
        JStr s \<Rightarrow> Inr (list_ex (endswith s) toks)
      | _ \<Rightarrow> Inl AttributeError)"

definition is_question_incomplete :: "question \<Rightarrow> error + bool" where
  "is_question_incomplete q =
     (let stem = dict_get q (ascii ''stem_text'') (JStr []);
          options = dict_get q (ascii ''options'') JNull
      in case any_letter stem choice_letters of
           Inl e \<Rightarrow> Inl e
         | Inr hit \<Rightarrow>
             if hit \<and> options = JNull then Inr True
             else (case stem_endswith stem dangling_tokens of
                     Inl e \<Rightarrow> Inl e
                   | Inr dangling \<Rightarrow> if dangling then Inr True else Inr False))"

text \<open>
  The two rules in the words of the specification, over the library's \<open>sublist\<close> and
  \<open>suffix\<close>: (a) the options are null or absent and the last ten characters of the stem
  contain a choice-letter marker; (b) the stem ends with a dangling token.
\<close>

definition stem_of :: "question \<Rightarrow> ustring" where
  "stem_of q = (case map_of q (ascii ''stem_text'') of Some (JStr s) \<Rightarrow> s | _ \<Rightarrow> [])"

definition options_missing :: "question \<Rightarrow> bool" where
  "options_missing q =
     (map_of q (ascii ''options'') = None \<or> map_of q (ascii ''options'') = Some JNull)"

definition rule_cut_choices :: "question \<Rightarrow> bool" where
  "rule_cut_choices q =
     (options_missing q \<and>
      (\<exists>m \<in> {ascii ''A.'', ascii ''B.'', ascii ''C.'', ascii ''D.''}.
         sublist m (drop (length (stem_of q) - 10) (stem_of q))))"

definition rule_dangling :: "question \<Rightarrow> bool" where
  "rule_dangling q =
     (\<exists>t \<in> {[65292], ascii '','', [65306], ascii '':'', [22914, 22270, 25152, 31034]}.
         suffix t (stem_of q))"

text \<open>The stem is a string, or the key is absent (then \<open>get\<close> gives the empty string).\<close>

definition stem_is_text :: "question \<Rightarrow> bool" where
  "stem_is_text q =
     (case map_of q (ascii ''stem_text'') of None \<Rightarrow> True | Some (JStr s) \<Rightarrow> True | _ \<Rightarrow> False)"

section \<open>Finalization\<close>

text \<open>
  How an f-string renders a value: a string as itself, \<open>None\<close> and the booleans by
  name. The text of a number, a list or a dict is the interpreter's \<open>repr\<close>, which is
  taken as the parameter \<open>py_repr\<close>.
\<close>

definition py_format :: "(json \<Rightarrow> ustring) \<Rightarrow> json \<Rightarrow> ustring" where
  "py_format py_repr v =
     (case v of
        JStr s \<Rightarrow> s
      | JNull \<Rightarrow> ascii ''None''
      | JBool b \<Rightarrow> (if b then ascii ''True'' else ascii ''False'')
      | _ \<Rightarrow> py_repr v)"

text \<open>
  The f-string of line 245:
  \<open>f"{q.get('section_title', '')} {q.get('question_number', '')}: {q.get('stem_text', '')}"\<close>.
\<close>

definition searchable_text :: "(json \<Rightarrow> ustring) \<Rightarrow> question \<Rightarrow> ustring" where
  "searchable_text py_repr q =
     py_format py_repr (dict_get q (ascii ''section_title'') (JStr []))
     @ ascii '' ''
     @ py_format py_repr (dict_get q (ascii ''question_number'') (JStr []))
     @ ascii '': ''
     @ py_format py_repr (dict_get q (ascii ''stem_text'') (JStr []))"

text \<open>
  The body of the loop of lines 241 to 246: the three assignments, in the source's
  order, on one question of the page.
\<close>

definition finalize :: "(json \<Rightarrow> ustring) \<Rightarrow> ustring \<Rightarrow> nat \<Rightarrow> question \<Rightarrow> question" where
  "finalize py_repr pdf_filename page_num q =
     (let q1 = AList.update (ascii ''source_pdf'') (JStr pdf_filename) q;
          q2 = AList.update (ascii ''source_page'') (JInt (int page_num)) q1
      in AList.update (ascii ''searchable_text'') (JStr (searchable_text py_repr q2)) q2)"

section \<open>The page loop\<close>

text \<open>
  The prompt sent with a page is the base prompt, or the continuation template filled
  with the JSON text of the buffered fragment, followed by the base prompt. It is a
  function of the buffer only, so it is kept as a value and not as its text.
\<close>

datatype prompt = Base | Continuation question

text \<open>
  The truth value of \<open>incomplete_question_buffer\<close> (\<open>None\<close> or a dict): a dict is true
  when it is not empty.
\<close>

definition buffer_set :: "question option \<Rightarrow> bool" where
  "buffer_set buf = (case buf of None \<Rightarrow> False | Some q \<Rightarrow> q \<noteq> [])"

definition current_prompt :: "question option \<Rightarrow> prompt" where
  "current_prompt buf =
     (case buf of
        None \<Rightarrow> Base
      | Some q \<Rightarrow> if q \<noteq> [] then Continuation q else Base)"

text \<open>
  Lines 236 to 246, on \<open>remaining_results\<close>: the last remaining result is tested, and
  popped into the buffer when it is judged incomplete; the others get their metadata.
  The result is the questions appended to the file's list by this loop, and the buffer.
\<close>

definition finalize_remaining ::
  "(json \<Rightarrow> ustring) \<Rightarrow> ustring \<Rightarrow> nat \<Rightarrow> question list \<Rightarrow> question option
     \<Rightarrow> error + (question list \<times> question option)" where
  "finalize_remaining py_repr pdf_filename page_num remaining buf =
     (if remaining = [] then Inr ([], buf)
      else (case is_question_incomplete (last remaining) of
              Inl e \<Rightarrow> Inl e
            | Inr incomplete \<Rightarrow>
                if incomplete
                then Inr (map (finalize py_repr pdf_filename page_num) (butlast remaining),
                          Some (last remaining))
                else Inr (map (finalize py_repr pdf_filename page_num) remaining, buf)))"

text \<open>
  Lines 224 to 246, the body of the page loop after the call of the extraction service:
  \<open>page_results\<close> is \<open>None\<close> (the call failed) or the list it returned, as
  \<open>call_vlm_api\<close> declares. The result is the questions this page appends to
  \<open>all_questions_for_this_pdf\<close>, in order, and the buffer after the page.
\<close>

definition page_step ::
  "(json \<Rightarrow> ustring) \<Rightarrow> ustring \<Rightarrow> nat \<Rightarrow> question option \<Rightarrow> question list option
     \<Rightarrow> error + (question list \<times> question option)" where
  "page_step py_repr pdf_filename page_num buf page_results =
     (case page_results of
        None \<Rightarrow> Inr ([], buf)
      | Some [] \<Rightarrow> Inr ([], buf)
      | Some (r # rs) \<Rightarrow>
          if buffer_set buf
          then (case finalize_remaining py_repr pdf_filename page_num rs None of
                  Inl e \<Rightarrow> Inl e
                | Inr (done, buf') \<Rightarrow> Inr (r # done, buf'))
          else finalize_remaining py_repr pdf_filename page_num (r # rs) buf)"

text \<open>
  The loop of lines 210 to 246 over the page images, from index \<open>i\<close> (the page number is
  \<open>i + 1\<close>), with the list accumulated so far and the buffer. \<open>call_vlm_api\<close> is the
  extraction service: a function of the page image and the prompt. An exception of the
  body leaves the loop, and \<open>main\<close>.
\<close>

fun process_pages ::
  "(json \<Rightarrow> ustring) \<Rightarrow> ('img \<Rightarrow> prompt \<Rightarrow> question list option) \<Rightarrow> ustring \<Rightarrow> nat
     \<Rightarrow> 'img list \<Rightarrow> question list \<Rightarrow> question option
     \<Rightarrow> error + (question list \<times> question option)" where
  "process_pages py_repr call_vlm_api pdf_filename i [] all_questions buf =
     Inr (all_questions, buf)"
| "process_pages py_repr call_vlm_api pdf_filename i (img # imgs) all_questions buf =
     (case page_step py_repr pdf_filename (i + 1) buf (call_vlm_api img (current_prompt buf)) of
        Inl e \<Rightarrow> Inl e
      | Inr (new, buf') \<Rightarrow>
          process_pages py_repr call_vlm_api pdf_filename (i + 1) imgs (all_questions @ new) buf')"

section \<open>Rendering, the Store and the ledger\<close>

text \<open>
  A PDF either cannot be opened, or has pages each of which rasterizes to an image or
  fails. \<open>pdf_to_images\<close> (lines 75 to 95) appends the images to \<open>image_paths\<close> page by
  page inside one \<open>try\<close>; the handler logs, and the function returns \<open>image_paths\<close> as
  it stands.
\<close>

datatype 'img pdf = Unopenable | Document "'img option list"

fun render_pages :: "'img option list \<Rightarrow> 'img list" where
  "render_pages [] = []"
| "render_pages (None # ps) = []"
| "render_pages (Some img # ps) = img # render_pages ps"

definition pdf_to_images :: "'img pdf \<Rightarrow> 'img list" where
  "pdf_to_images pdf = (case pdf of Unopenable \<Rightarrow> [] | Document ps \<Rightarrow> render_pages ps)"

text \<open>
  The persisted files. Reading the Store's file with \<open>json.load\<close> has three outcomes:
  an exception that is not a \<open>json.JSONDecodeError\<close> (the bytes are not UTF-8, an integer
  has more digits than the interpreter converts, the nesting is too deep), a
  \<open>json.JSONDecodeError\<close>, or the value the text parses to. The ledger is its text: a
  ledger that is not UTF-8 makes \<open>main\<close> raise at line 188, before any file is touched,
  and is not among the values.
\<close>

datatype store_doc = Unreadable error | Malformed | Parsed json

record files =
  store_file :: "store_doc option"
  ledger_file :: "ustring option"

text \<open>
  A surrogate code point (U+D800 to U+DFFF) cannot be encoded as UTF-8; \<open>json.loads\<close>
  yields one from an escape such as \<open>\ud800\<close>, and a file name that is not UTF-8 holds
  them. \<open>has_surrogate\<close> looks into every string of a value, keys included.
\<close>

definition surrogate :: "nat \<Rightarrow> bool" where
  "surrogate c = (55296 \<le> c \<and> c \<le> 57343)"

definition unencodable :: "ustring \<Rightarrow> bool" where
  "unencodable s = list_ex surrogate s"

fun has_surrogate :: "json \<Rightarrow> bool" where
  "has_surrogate (JStr s) = unencodable s"
| "has_surrogate (JArr xs) = list_ex has_surrogate xs"
| "has_surrogate (JObj kvs) = list_ex (\<lambda>kv. unencodable (fst kv) \<or> has_surrogate (snd kv)) kvs"
| "has_surrogate v = False"

text \<open>
  \<open>json.dump(existing_data, f, ensure_ascii=False, indent=4)\<close> on the file just opened
  for writing is the library's, and is taken as the parameter \<open>json_dump\<close>: \<open>None\<close>
  when the document is written whole, or the exception raised and what the file, closed
  by the \<open>with\<close>, then holds. \<open>surrogate_dump\<close> is \<open>json.dump\<close> for documents within
  the interpreter's nesting limit: the text is written piece by piece and encoded as
  UTF-8, so a string with a surrogate raises UnicodeEncodeError and leaves the
  beginning of the text, which is not valid JSON.
\<close>

definition surrogate_dump :: "json \<Rightarrow> (error \<times> store_doc) option" where
  "surrogate_dump doc = (if has_surrogate doc then Some (UnicodeEncodeError, Malformed) else None)"

text \<open>
  \<open>append_to_json_file\<close> (lines 166 to 179). Only a \<open>json.JSONDecodeError\<close> is caught
  when the file is read; \<open>existing_data.extend\<close> exists only on a list; then the file
  is opened with \<open>'w'\<close>, which empties it, and the document is dumped. The result is
  the file after the call and the exception that left the function, if one did.
\<close>

definition read_existing :: "store_doc option \<Rightarrow> error + json" where
  "read_existing file =
     (case file of
        None \<Rightarrow> Inr (JArr [])
      | Some (Unreadable e) \<Rightarrow> Inl e
      | Some Malformed \<Rightarrow> Inr (JArr [])
      | Some (Parsed existing_data) \<Rightarrow> Inr existing_data)"

definition append_to_json_file ::
  "(json \<Rightarrow> (error \<times> store_doc) option) \<Rightarrow> question list \<Rightarrow> store_doc option
     \<Rightarrow> store_doc option \<times> error option" where
  "append_to_json_file json_dump data file =
     (case read_existing file of
        Inl e \<Rightarrow> (file, Some e)
      | Inr (JArr existing_data) \<Rightarrow>
          (case json_dump (JArr (existing_data @ map JObj data)) of
             None \<Rightarrow> (Some (Parsed (JArr (existing_data @ map JObj data))), None)
           | Some (e, left) \<Rightarrow> (Some left, Some e))
      | Inr _ \<Rightarrow> (file, Some AttributeError))"

text \<open>
  Reading a text file line by line: \<open>\r\n\<close> and \<open>\r\<close> are read as \<open>\n\<close>, and a line
  runs up to and including its \<open>\n\<close>.
\<close>

fun universal_newlines :: "ustring \<Rightarrow> ustring" where
  "universal_newlines [] = []"
| "universal_newlines [c] = [if c = 13 then 10 else c]"
| "universal_newlines (c # d # cs) =
     (if c = 13 \<and> d = 10 then 10 # universal_newlines cs
      else if c = 13 then 10 # universal_newlines (d # cs)
      else c # universal_newlines (d # cs))"

fun lines_from :: "ustring \<Rightarrow> ustring \<Rightarrow> ustring list" where
  "lines_from cur [] = (if cur = [] then [] else [cur])"
| "lines_from cur (c # cs) =
     (if c = 10 then (cur @ [c]) # lines_from [] cs else lines_from (cur @ [c]) cs)"

definition file_lines :: "ustring \<Rightarrow> ustring list" where
  "file_lines txt = lines_from [] (universal_newlines txt)"

text \<open>\<open>load_processed_files\<close> (lines 154 to 159).\<close>

definition load_processed_files :: "ustring option \<Rightarrow> ustring set" where
  "load_processed_files ledger =
     (case ledger of
        None \<Rightarrow> {}
      | Some txt \<Rightarrow> set (map py_strip (file_lines txt)))"

text \<open>
  \<open>log_processed_file\<close> (lines 161 to 164): the file is opened for appending, which
  creates it, and the name and a line break are written in one piece. A name with a
  surrogate cannot be encoded: nothing is written and UnicodeEncodeError is raised.
\<close>

definition log_processed_file :: "ustring \<Rightarrow> ustring option \<Rightarrow> ustring option \<times> error option" where
  "log_processed_file filename ledger =
     (let old = (case ledger of None \<Rightarrow> [] | Some txt \<Rightarrow> txt) in
      if unencodable filename then (Some old, Some UnicodeEncodeError)
      else (Some (old @ filename @ [10]), None))"

section \<open>The driver\<close>

text \<open>
  One turn of the loop over the PDF files (lines 195 to 258). The result is the files
  after the turn and the exception that left \<open>main\<close>, if one did.
\<close>

definition process_pdf ::
  "(json \<Rightarrow> (error \<times> store_doc) option) \<Rightarrow> (json \<Rightarrow> ustring)
     \<Rightarrow> ('img \<Rightarrow> prompt \<Rightarrow> question list option) \<Rightarrow> ustring set
     \<Rightarrow> ustring \<times> 'img pdf \<Rightarrow> files \<Rightarrow> files \<times> error option" where
  "process_pdf json_dump py_repr call_vlm_api processed_files f fs =
     (if fst f \<in> processed_files then (fs, None)
      else let image_paths = pdf_to_images (snd f) in
        if image_paths = [] then (fs, None)
        else (case process_pages py_repr call_vlm_api (fst f) 0 image_paths [] None of
                Inl e \<Rightarrow> (fs, Some e)
              | Inr (all_questions, buf) \<Rightarrow>
                  if all_questions \<noteq> []
                  then (case append_to_json_file json_dump all_questions (store_file fs) of
                          (doc, Some e) \<Rightarrow> (fs\<lparr>store_file := doc\<rparr>, Some e)
                        | (doc, None) \<Rightarrow>
                            (case log_processed_file (fst f) (ledger_file fs) of
                               (ledger, e) \<Rightarrow> (fs\<lparr>store_file := doc, ledger_file := ledger\<rparr>, e)))
                  else (fs, None)))"

fun process_pdfs ::
  "(json \<Rightarrow> (error \<times> store_doc) option) \<Rightarrow> (json \<Rightarrow> ustring)
     \<Rightarrow> ('img \<Rightarrow> prompt \<Rightarrow> question list option) \<Rightarrow> ustring set
     \<Rightarrow> (ustring \<times> 'img pdf) list \<Rightarrow> files \<Rightarrow> files \<times> error option" where
  "process_pdfs json_dump py_repr call_vlm_api processed_files [] fs = (fs, None)"
| "process_pdfs json_dump py_repr call_vlm_api processed_files (f # rest) fs =
     (case process_pdf json_dump py_repr call_vlm_api processed_files f fs of
        (fs', Some e) \<Rightarrow> (fs', Some e)
      | (fs', None) \<Rightarrow> process_pdfs json_dump py_repr call_vlm_api processed_files rest fs')"

text \<open>
  \<open>main\<close> (lines 183 to 260): the ledger is read once, before the loop; \<open>pdf_files\<close> is
  the input directory as \<open>glob\<close> lists it, each file with its base name.
\<close>

definition main ::
  "(json \<Rightarrow> (error \<times> store_doc) option) \<Rightarrow> (json \<Rightarrow> ustring)
     \<Rightarrow> ('img \<Rightarrow> prompt \<Rightarrow> question list option)
     \<Rightarrow> (ustring \<times> 'img pdf) list \<Rightarrow> files \<Rightarrow> files \<times> error option" where
  "main json_dump py_repr call_vlm_api pdf_files fs =
     (let processed_files = load_processed_files (ledger_file fs) in
      if pdf_files = [] then (fs, None)
      else process_pdfs json_dump py_repr call_vlm_api processed_files pdf_files fs)"

section \<open>Notions used in the statements\<close>

text \<open>
  The text a field contributes to \<open>searchable_text\<close> when it is a string, and the empty
  text when the key is absent; no text is given for any other value.
\<close>

definition field_text :: "question \<Rightarrow> ustring \<Rightarrow> ustring option" where
  "field_text q k = (case map_of q k of None \<Rightarrow> Some [] | Some (JStr s) \<Rightarrow> Some s | _ \<Rightarrow> None)"

text \<open>The records an extraction returned for a page: none when the call failed.\<close>

definition returned :: "question list option \<Rightarrow> question list" where
  "returned page_results = (case page_results of None \<Rightarrow> [] | Some rs \<Rightarrow> rs)"

text \<open>
  Position on the page is kept: the \<open>j\<close>-th record a page appends is the \<open>j\<close>-th record
  the extraction returned for it, as returned or with its metadata attached.
\<close>

definition as_returned_or_finalized ::
  "(json \<Rightarrow> ustring) \<Rightarrow> ustring \<Rightarrow> nat \<Rightarrow> question list \<Rightarrow> question list \<Rightarrow> bool" where
  "as_returned_or_finalized py_repr pdf_filename page_num new raw =
     (length new \<le> length raw \<and>
      list_all2 (\<lambda>x r. x = r \<or> x = finalize py_repr pdf_filename page_num r)
        new (take (length new) raw))"

text \<open>
  The records the Store holds, as \<open>append_to_json_file\<close> reads them before it extends
  them: none when the file is absent or is not valid JSON.
\<close>

definition store_records :: "store_doc option \<Rightarrow> json list" where
  "store_records file = (case read_existing file of Inr (JArr existing_data) \<Rightarrow> existing_data | _ \<Rightarrow> [])"

text \<open>
  A file name that reading the ledger gives back as it was written: \<open>strip\<close> leaves it
  alone and it holds no line break. A ledger whose last line is complete.
\<close>

definition clean_name :: "ustring \<Rightarrow> bool" where
  "clean_name n = (py_strip n = n \<and> 10 \<notin> set n \<and> 13 \<notin> set n)"

definition ledger_ok :: "ustring option \<Rightarrow> bool" where
  "ledger_ok ledger = (case ledger of None \<Rightarrow> True | Some txt \<Rightarrow> txt = [] \<or> last txt = 10)"

section \<open>Concrete runs\<close>

text \<open>
  The questions of the specification's scenario for \<open>exam2023.pdf\<close>: a complete first
  question, a second one cut after \<open>B.\<close> with null options, its completion, and a third.
  \<open>q2_still_cut\<close> is a completion that is itself cut (the question runs over three pages).
\<close>

definition no_repr :: "json \<Rightarrow> ustring" where
  "no_repr v = []"

definition exam_name :: ustring where
  "exam_name = ascii ''exam2023.pdf''"

definition q1 :: question where
  "q1 = [(ascii ''section_title'', JStr (ascii ''I'')),
         (ascii ''question_number'', JStr (ascii ''1'')),
         (ascii ''stem_text'', JStr (ascii ''Q1 full'')),
         (ascii ''options'', JObj [(ascii ''A'', JStr (ascii ''x'')), (ascii ''B'', JStr (ascii ''y''))])]"

definition q2_cut :: question where
  "q2_cut = [(ascii ''question_number'', JStr (ascii ''2'')),
             (ascii ''stem_text'', JStr (ascii ''Q2 begins... A. x B.'')),
             (ascii ''options'', JNull)]"

definition q2_still_cut :: question where
  "q2_still_cut = [(ascii ''question_number'', JStr (ascii ''2'')),
                   (ascii ''stem_text'', JStr (ascii ''Q2 begins... A. x B. y C.'')),
                   (ascii ''options'', JNull)]"

definition q2_full :: question where
  "q2_full = [(ascii ''question_number'', JStr (ascii ''2'')),
              (ascii ''stem_text'', JStr (ascii ''Q2 begins... A. x B. y'')),
              (ascii ''options'', JObj [(ascii ''A'', JStr (ascii ''x'')), (ascii ''B'', JStr (ascii ''y''))])]"

definition q3 :: question where
  "q3 = [(ascii ''question_number'', JStr (ascii ''3'')),
         (ascii ''stem_text'', JStr (ascii ''Q3 full'')),
         (ascii ''options'', JNull)]"

definition q_null_title :: question where
  "q_null_title = [(ascii ''section_title'', JNull),
                   (ascii ''question_number'', JStr (ascii ''1'')),
                   (ascii ''stem_text'', JStr (ascii ''Q1 full''))]"

text \<open>A record whose stem is the one code point U+D800, as \<open>json.loads\<close> reads \<open>"\ud800"\<close>.\<close>

definition q_surrogate :: question where
  "q_surrogate = [(ascii ''stem_text'', JStr [55296])]"

text \<open>
  Extraction services, as functions of the page image (here its number in the file) and
  the prompt. \<open>exam_vlm\<close> is the scenario of the specification; in \<open>gap_vlm\<close> the call for
  page 2 fails; \<open>first_page_vlm\<close> answers for page 1 only; in \<open>three_page_vlm\<close> the
  completion returned for page 2 is cut again.
\<close>

definition exam_vlm :: "int \<Rightarrow> prompt \<Rightarrow> question list option" where
  "exam_vlm img pr =
     (if img = 1 then Some [q1, q2_cut]
      else if img = 2 then (case pr of Continuation c \<Rightarrow> Some [q2_full, q3] | Base \<Rightarrow> Some [q3])
      else None)"

definition gap_vlm :: "int \<Rightarrow> prompt \<Rightarrow> question list option" where
  "gap_vlm img pr =
     (if img = 1 then Some [q2_cut]
      else if img = 3 then (case pr of Continuation c \<Rightarrow> Some [q2_full] | Base \<Rightarrow> Some [q3])
      else None)"

definition first_page_vlm :: "int \<Rightarrow> prompt \<Rightarrow> question list option" where
  "first_page_vlm img pr = (if img = 1 then Some [q1] else None)"

definition three_page_vlm :: "int \<Rightarrow> prompt \<Rightarrow> question list option" where
  "three_page_vlm img pr =
     (if img = 1 then Some [q2_cut]
      else if img = 2 then Some [q2_still_cut]
      else if img = 3 then (case pr of Continuation c \<Rightarrow> Some [q2_full] | Base \<Rightarrow> Some [q3])
      else None)"

text \<open>A file name that begins with a space, and the files before and after its first run.\<close>

definition spaced_name :: ustring where
  "spaced_name = 32 # ascii ''a.pdf''"

definition no_files :: files where
  "no_files = \<lparr>store_file = None, ledger_file = None\<rparr>"

definition spaced_after_first :: files where
  "spaced_after_first =
     \<lparr>store_file = Some (Parsed (JArr [JObj (finalize no_repr spaced_name 1 q1)])),
      ledger_file = Some (spaced_name @ [10])\<rparr>"

section \<open>The incompleteness test (C5)\<close>

lemma take_eq_prefix: "(take (length t) s = t) = prefix t s"
  by (metis append_take_drop_id prefix_def append_eq_conv_conj)

lemma py_contains_sublist: "py_contains t s = sublist t s"
  by (induction s) (simp_all add: take_eq_prefix sublist_Cons_right)

lemma endswith_suffix: "endswith s t = suffix t s"
  unfolding endswith_def
  by (metis suffix_def suffix_drop suffix_length_le append_eq_conv_conj length_append
      add_diff_cancel_right')

lemma any_letter_str:
  "any_letter (JStr s) ls = Inr (\<exists>m \<in> set ls. sublist m (last10 s))"
  by (induction ls) (simp_all add: letter_in_tail_def py_contains_sublist)

lemma stem_endswith_str:
  "stem_endswith (JStr s) toks = Inr (\<exists>t \<in> set toks. suffix t s)"
  by (simp add: stem_endswith_def list_ex_iff endswith_suffix)

lemma stem_is_text_get:
  "stem_is_text q \<Longrightarrow> dict_get q (ascii ''stem_text'') (JStr []) = JStr (stem_of q)"
  by (auto simp: stem_is_text_def dict_get_def stem_of_def split: option.splits json.splits)

lemma options_missing_get:
  "(dict_get q (ascii ''options'') JNull = JNull) = options_missing q"
  by (auto simp: dict_get_def options_missing_def split: option.splits)

lemma is_question_incomplete_text:
  assumes "stem_is_text q"
  shows "is_question_incomplete q = Inr (rule_cut_choices q \<or> rule_dangling q)"
proof -
  have a: "any_letter (JStr (stem_of q)) choice_letters
      = Inr (\<exists>m \<in> {ascii ''A.'', ascii ''B.'', ascii ''C.'', ascii ''D.''}.
               sublist m (drop (length (stem_of q) - 10) (stem_of q)))"
    unfolding any_letter_str choice_letters_def last10_def by simp
  have b: "stem_endswith (JStr (stem_of q)) dangling_tokens = Inr (rule_dangling q)"
    unfolding stem_endswith_str dangling_tokens_def rule_dangling_def by simp
  show ?thesis
    unfolding is_question_incomplete_def Let_def stem_is_text_get[OF assms] a b options_missing_get
    by (auto simp: rule_cut_choices_def)
qed

lemma finalize_remaining_snoc:
  assumes "stem_is_text c"
  shows "finalize_remaining R name page (cs @ [c]) buf =
           (if rule_cut_choices c \<or> rule_dangling c
            then Inr (map (finalize R name page) cs, Some c)
            else Inr (map (finalize R name page) (cs @ [c]), buf))"
  by (simp add: finalize_remaining_def is_question_incomplete_text[OF assms])

text \<open>
  C5. On a candidate whose stem is text, \<open>is_question_incomplete\<close> answers, and answers
  "incomplete" exactly when rule (a) or rule (b) of the specification holds. The page
  applies the test to its last candidate only: that one is moved to the buffer when it
  is judged incomplete, and every candidate before it is finalized whatever the test
  would say of it.
\<close>

theorem incompleteness_test_on_last_candidate:
  assumes "stem_is_text c"
  shows "is_question_incomplete c = Inr (rule_cut_choices c \<or> rule_dangling c) \<and>
         finalize_remaining R name page (cs @ [c]) buf =
           (if rule_cut_choices c \<or> rule_dangling c
            then Inr (map (finalize R name page) cs, Some c)
            else Inr (map (finalize R name page) (cs @ [c]), buf))"
  using assms by (simp add: finalize_remaining_snoc is_question_incomplete_text)

lemmas incomplete_eval_defs =
  is_question_incomplete_def ascii_def dict_get_def choice_letters_def
  letter_in_tail_def last10_def stem_endswith_def dangling_tokens_def endswith_def

lemma incomplete_q1: "is_question_incomplete q1 = Inr False"
  by (simp add: q1_def incomplete_eval_defs)

lemma incomplete_q2_cut: "is_question_incomplete q2_cut = Inr True"
  by (simp add: q2_cut_def incomplete_eval_defs)

lemma incomplete_q2_still_cut: "is_question_incomplete q2_still_cut = Inr True"
  by (simp add: q2_still_cut_def incomplete_eval_defs)

lemma incomplete_q2_full: "is_question_incomplete q2_full = Inr False"
  by (simp add: q2_full_def incomplete_eval_defs)

lemma incomplete_q3: "is_question_incomplete q3 = Inr False"
  by (simp add: q3_def incomplete_eval_defs)

lemma q2_cut_nonempty: "q2_cut \<noteq> []"
  by (simp add: q2_cut_def)

lemma q2_cut_text: "stem_is_text q2_cut"
  by (simp add: stem_is_text_def q2_cut_def ascii_def)

lemmas incomplete_evals =
  incomplete_q1 incomplete_q2_cut incomplete_q2_still_cut incomplete_q2_full incomplete_q3

lemmas page_eval_defs =
  page_step_def finalize_remaining_def buffer_set_def current_prompt_def q2_cut_nonempty

text \<open>
  The cut second question is judged incomplete by the code, so one of the two rules
  holds of it; as the last of three candidates it is the one that is buffered.
\<close>

theorem incompleteness_test_on_last_candidate_witness:
  "stem_is_text q2_cut \<and> (rule_cut_choices q2_cut \<or> rule_dangling q2_cut) \<and>
   finalize_remaining no_repr exam_name 1 ([q2_cut, q2_cut] @ [q2_cut]) None =
     Inr ([finalize no_repr exam_name 1 q2_cut, finalize no_repr exam_name 1 q2_cut], Some q2_cut)"
proof -
  note t = incompleteness_test_on_last_candidate[OF q2_cut_text,
             of no_repr exam_name 1 "[q2_cut, q2_cut]" None]
  from t have "Inr True = (Inr (rule_cut_choices q2_cut \<or> rule_dangling q2_cut) :: error + bool)"
    by (simp only: incomplete_q2_cut)
  then have "rule_cut_choices q2_cut \<or> rule_dangling q2_cut" by simp
  with t q2_cut_text show ?thesis by simp
qed

section \<open>The Store's append (C8)\<close>

text \<open>
  When the document is written whole, the Store holds the sequence it held, unchanged,
  followed by the new records; an absent file and one that is not valid JSON count as
  the empty sequence.
\<close>

lemma append_written_whole:
  assumes "json_dump (JArr (store_records file @ map JObj data)) = None"
      and "file = None \<or> file = Some Malformed \<or> file = Some (Parsed (JArr existing))"
  shows "append_to_json_file json_dump data file =
           (Some (Parsed (JArr (store_records file @ map JObj data))), None)"
  using assms
  by (auto simp: append_to_json_file_def read_existing_def store_records_def)

lemma append_refused:
  "append_to_json_file json_dump data (Some (Unreadable e)) = (Some (Unreadable e), Some e)"
  "append_to_json_file json_dump data (Some (Parsed JNull)) = (Some (Parsed JNull), Some AttributeError)"
  "append_to_json_file json_dump data (Some (Parsed (JObj kvs))) =
     (Some (Parsed (JObj kvs)), Some AttributeError)"
  by (simp_all add: append_to_json_file_def read_existing_def)

lemma has_surrogate_JArr:
  "has_surrogate (JArr []) = False"
  "has_surrogate (JArr (x # xs)) = (has_surrogate x \<or> has_surrogate (JArr xs))"
  by simp_all

lemma q1_encodable: "\<not> has_surrogate (JObj q1)"
  by (simp add: q1_def ascii_def unencodable_def surrogate_def)

lemma q_surrogate_unencodable: "has_surrogate (JObj q_surrogate)"
  by (simp add: q_surrogate_def ascii_def unencodable_def surrogate_def)

text \<open>
  C8. Two calls in which the code does not do what the claim says. The Store holds the
  sequence of one record and a record with a lone surrogate is appended: the file has
  been emptied when \<open>json.dump\<close> raises, and the record the Store held is lost. The
  Store's file is not UTF-8: the exception of the read is not the one the handler
  catches, and the call fails where the claim has the content overwritten.
\<close>

theorem append_loses_or_refuses_document:
  "append_to_json_file surrogate_dump [q_surrogate] (Some (Parsed (JArr [JObj q1]))) =
     (Some Malformed, Some UnicodeEncodeError) \<and>
   store_records (Some Malformed) = [] \<and>
   append_to_json_file surrogate_dump [q1] (Some (Unreadable UnicodeDecodeError)) =
     (Some (Unreadable UnicodeDecodeError), Some UnicodeDecodeError)"
  by (simp add: append_to_json_file_def read_existing_def store_records_def surrogate_dump_def
      has_surrogate_JArr q1_encodable q_surrogate_unencodable del: has_surrogate.simps)

section \<open>The searchable text (C9)\<close>

lemma dict_get_update_other:
  "k \<noteq> k' \<Longrightarrow> dict_get (AList.update k' v q) k d = dict_get q k d"
  by (simp add: dict_get_def update_conv')

lemma searchable_text_update_other:
  assumes "k' \<noteq> ascii ''section_title''" "k' \<noteq> ascii ''question_number''"
    "k' \<noteq> ascii ''stem_text''"
  shows "searchable_text R (AList.update k' v q) = searchable_text R q"
  using assms by (simp add: searchable_text_def dict_get_update_other)

lemma metadata_keys_distinct:
  "ascii ''source_pdf'' \<noteq> ascii ''section_title''"
  "ascii ''source_pdf'' \<noteq> ascii ''question_number''"
  "ascii ''source_pdf'' \<noteq> ascii ''stem_text''"
  "ascii ''source_page'' \<noteq> ascii ''section_title''"
  "ascii ''source_page'' \<noteq> ascii ''question_number''"
  "ascii ''source_page'' \<noteq> ascii ''stem_text''"
  by (simp_all add: ascii_def)

lemma finalize_searchable:
  "map_of (finalize R name page q) (ascii ''searchable_text'') = Some (JStr (searchable_text R q))"
  by (simp add: finalize_def Let_def update_conv' searchable_text_update_other
      metadata_keys_distinct)

lemma field_text_format:
  "field_text q k = Some t \<Longrightarrow> py_format R (dict_get q k (JStr [])) = t"
  by (auto simp: field_text_def dict_get_def py_format_def split: option.splits json.splits)

lemma searchable_text_fields:
  assumes "field_text q (ascii ''section_title'') = Some t"
      and "field_text q (ascii ''question_number'') = Some n"
      and "field_text q (ascii ''stem_text'') = Some s"
  shows "searchable_text R q = t @ ascii '' '' @ n @ ascii '': '' @ s"
  using assms by (simp add: searchable_text_def field_text_format)

lemma finalize_remaining_members:
  assumes "finalize_remaining R name page cs buf = Inr (fin, buf')" and "x \<in> set fin"
  shows "\<exists>c \<in> set cs. x = finalize R name page c"
  using assms
  by (fastforce simp: finalize_remaining_def split: if_splits sum.splits dest: in_set_butlastD)

text \<open>
  C9, as amended. Every record the page finalizes is \<open>finalize\<close> of one of its
  candidates, and when the candidate's section title, question number and stem are
  strings (or absent, which counts as the empty string), its \<open>searchable_text\<close> is the
  title, a space, the number, a colon and a space, and the stem.
\<close>

theorem searchable_text_of_finalized:
  assumes "finalize_remaining R name page cs buf = Inr (fin, buf')" and "x \<in> set fin"
  shows "\<exists>c \<in> set cs. x = finalize R name page c \<and>
           (\<forall>t n s. field_text c (ascii ''section_title'') = Some t \<longrightarrow>
                    field_text c (ascii ''question_number'') = Some n \<longrightarrow>
                    field_text c (ascii ''stem_text'') = Some s \<longrightarrow>
                    map_of x (ascii ''searchable_text'') =
                      Some (JStr (t @ ascii '' '' @ n @ ascii '': '' @ s)))"
proof -
  from finalize_remaining_members[OF assms] obtain c
    where c: "c \<in> set cs" "x = finalize R name page c"
    by blast
  then show ?thesis
    by (auto simp: finalize_searchable searchable_text_fields intro!: bexI[of _ c])
qed

lemma q1_finalized:
  "finalize_remaining no_repr exam_name 1 [q1] None = Inr ([finalize no_repr exam_name 1 q1], None)"
  by (simp add: finalize_remaining_def incomplete_q1)

text \<open>The first question of the scenario, finalized on page 1: its text is \<open>I 1: Q1 full\<close>.\<close>

theorem searchable_text_of_finalized_witness:
  "finalize_remaining no_repr exam_name 1 [q1] None = Inr ([finalize no_repr exam_name 1 q1], None) \<and>
   map_of (finalize no_repr exam_name 1 q1) (ascii ''searchable_text'') =
     Some (JStr (ascii ''I 1: Q1 full''))"
proof -
  have "\<exists>c \<in> set [q1]. finalize no_repr exam_name 1 q1 = finalize no_repr exam_name 1 c \<and>
           (\<forall>t n s. field_text c (ascii ''section_title'') = Some t \<longrightarrow>
                    field_text c (ascii ''question_number'') = Some n \<longrightarrow>
                    field_text c (ascii ''stem_text'') = Some s \<longrightarrow>
                    map_of (finalize no_repr exam_name 1 q1) (ascii ''searchable_text'') =
                      Some (JStr (t @ ascii '' '' @ n @ ascii '': '' @ s)))"
    by (rule searchable_text_of_finalized[OF q1_finalized]) simp
  then have "map_of (finalize no_repr exam_name 1 q1) (ascii ''searchable_text'') =
               Some (JStr (ascii ''I'' @ ascii '' '' @ ascii ''1'' @ ascii '': '' @ ascii ''Q1 full''))"
    by (simp add: field_text_def q1_def ascii_def)
  then show ?thesis using q1_finalized by (simp add: ascii_def)
qed

text \<open>
  The claim as stated fails on the same question: its text is not the title, the number
  and the stem put end to end (\<open>I1Q1 full\<close>).
\<close>

theorem searchable_text_concatenation_counterexample:
  "map_of (finalize no_repr exam_name 1 q1) (ascii ''searchable_text'')
     \<noteq> Some (JStr (ascii ''I'' @ ascii ''1'' @ ascii ''Q1 full''))"
  unfolding finalize_searchable
  by (simp add: searchable_text_def py_format_def dict_get_def q1_def ascii_def)

text \<open>A null section title is rendered by the f-string as the word \<open>None\<close>.\<close>

lemma null_title_rendered_as_None:
  "map_of (finalize no_repr exam_name 1 q_null_title) (ascii ''searchable_text'') =
     Some (JStr (ascii ''None 1: Q1 full''))"
  unfolding finalize_searchable
  by (simp add: searchable_text_def py_format_def dict_get_def q_null_title_def ascii_def)

section \<open>Order of the records of a file (C7)\<close>

lemma process_pages_acc:
  "process_pages R vlm name i ps acc buf =
     (case process_pages R vlm name i ps [] buf of
        Inl e \<Rightarrow> Inl e
      | Inr (out, b) \<Rightarrow> Inr (acc @ out, b))"
proof (induction ps arbitrary: i acc buf)
  case Nil
  show ?case by simp
next
  case (Cons p ps)
  show ?case
  proof (cases "page_step R name (i + 1) buf (vlm p (current_prompt buf))")
    case (Inl e)
    then show ?thesis by simp
  next
    case (Inr nb)
    obtain new b' where nb: "nb = (new, b')" by (cases nb)
    have l: "process_pages R vlm name i (p # ps) acc buf =
               (case process_pages R vlm name (i + 1) ps [] b' of
                  Inl e \<Rightarrow> Inl e | Inr (out, b) \<Rightarrow> Inr ((acc @ new) @ out, b))"
      using Inr nb Cons.IH[of "i + 1" "acc @ new" b'] by simp
    have r: "process_pages R vlm name i (p # ps) [] buf =
               (case process_pages R vlm name (i + 1) ps [] b' of
                  Inl e \<Rightarrow> Inl e | Inr (out, b) \<Rightarrow> Inr (new @ out, b))"
      using Inr nb Cons.IH[of "i + 1" new b'] by simp
    show ?thesis unfolding l r by (simp split: sum.splits prod.splits)
  qed
qed

lemma process_pages_append:
  "process_pages R vlm name i (ps1 @ ps2) acc buf =
     (case process_pages R vlm name i ps1 acc buf of
        Inl e \<Rightarrow> Inl e
      | Inr (a, b) \<Rightarrow> process_pages R vlm name (i + length ps1) ps2 a b)"
  by (induction ps1 arbitrary: i acc buf) (auto split: sum.splits)

lemma finalize_remaining_order:
  assumes "finalize_remaining R name page cs buf = Inr (fin, buf')"
  shows "length fin \<le> length cs \<and>
         list_all2 (\<lambda>x r. x = r \<or> x = finalize R name page r) fin (take (length fin) cs)"
  using assms
  by (auto simp: finalize_remaining_def list_all2_map1 list_all2_same butlast_conv_take
           split: if_splits sum.splits)

lemma page_step_order:
  assumes "page_step R name page buf page_results = Inr (new, buf')"
  shows "as_returned_or_finalized R name page new (returned page_results)"
proof (cases page_results)
  case None
  with assms show ?thesis
    by (simp add: page_step_def as_returned_or_finalized_def returned_def)
next
  case (Some rs)
  show ?thesis
  proof (cases rs)
    case Nil
    with Some assms show ?thesis
      by (simp add: page_step_def as_returned_or_finalized_def returned_def)
  next
    case (Cons r rs')
    show ?thesis
    proof (cases "buffer_set buf")
      case True
      with Some Cons assms obtain fin where
        f: "finalize_remaining R name page rs' None = Inr (fin, buf')" and n: "new = r # fin"
        by (auto simp: page_step_def split: sum.splits)
      from finalize_remaining_order[OF f] n Some Cons show ?thesis
        by (simp add: as_returned_or_finalized_def returned_def)
    next
      case False
      with Some Cons assms have "finalize_remaining R name page (r # rs') buf = Inr (new, buf')"
        by (simp add: page_step_def)
      from finalize_remaining_order[OF this] Some Cons show ?thesis
        by (simp add: as_returned_or_finalized_def returned_def)
    qed
  qed
qed

lemma process_pages_split:
  assumes "process_pages R vlm name i (ps1 @ p # ps2) acc buf = Inr (out, buf_end)"
  shows "\<exists>out1 buf1 new buf2 out2.
           process_pages R vlm name i ps1 acc buf = Inr (acc @ out1, buf1) \<and>
           page_step R name (i + length ps1 + 1) buf1 (vlm p (current_prompt buf1)) = Inr (new, buf2) \<and>
           process_pages R vlm name (i + length ps1 + 1) ps2 [] buf2 = Inr (out2, buf_end) \<and>
           out = acc @ out1 @ new @ out2 \<and>
           as_returned_or_finalized R name (i + length ps1 + 1) new
             (returned (vlm p (current_prompt buf1)))"
proof -
  from assms obtain a1 buf1 where
    s1: "process_pages R vlm name i ps1 acc buf = Inr (a1, buf1)" and
    s2: "process_pages R vlm name (i + length ps1) (p # ps2) a1 buf1 = Inr (out, buf_end)"
    by (auto simp: process_pages_append split: sum.splits)
  from s1 obtain out1 where a1: "a1 = acc @ out1"
    by (subst (asm) process_pages_acc) (auto split: sum.splits)
  from s2 obtain new buf2 where
    st: "page_step R name (i + length ps1 + 1) buf1 (vlm p (current_prompt buf1)) = Inr (new, buf2)" and
    s3: "process_pages R vlm name (i + length ps1 + 1) ps2 (a1 @ new) buf2 = Inr (out, buf_end)"
    by (auto split: sum.splits)
  from s3 obtain out2 where
    o2: "process_pages R vlm name (i + length ps1 + 1) ps2 [] buf2 = Inr (out2, buf_end)" and
    o: "out = (a1 @ new) @ out2"
    by (subst (asm) process_pages_acc) (auto split: sum.splits)
  from s1 a1 st o2 o page_step_order[OF st] show ?thesis by auto
qed

lemma exam_pages:
  "process_pages no_repr exam_vlm exam_name 0 [1, 2] [] None =
     Inr ([finalize no_repr exam_name 1 q1, q2_full, finalize no_repr exam_name 2 q3], None)"
  by (simp add: exam_vlm_def page_eval_defs incomplete_evals numeral_2_eq_2)

lemma exam_records_encodable:
  "\<not> has_surrogate (JObj (finalize no_repr exam_name page q1))"
  "\<not> has_surrogate (JObj q2_full)"
  "\<not> has_surrogate (JObj (finalize no_repr exam_name page q3))"
  by (simp_all add: finalize_def searchable_text_def py_format_def dict_get_def Let_def
      q1_def q2_full_def q3_def exam_name_def ascii_def unencodable_def surrogate_def)

lemma append_done:
  assumes "append_to_json_file json_dump data file = (doc, None)"
  shows "doc = Some (Parsed (JArr (store_records file @ map JObj data)))"
proof (cases "read_existing file")
  case (Inl e)
  with assms show ?thesis by (simp add: append_to_json_file_def)
next
  case (Inr v)
  show ?thesis
  proof (cases v)
    case (JArr xs)
    with Inr assms show ?thesis
      by (cases "json_dump (JArr (xs @ map JObj data))")
        (auto simp: append_to_json_file_def store_records_def)
  qed (use Inr assms in \<open>simp_all add: append_to_json_file_def\<close>)
qed

lemma process_pdf_done:
  assumes "fst f \<notin> processed"
      and "process_pdf json_dump R vlm processed f fs = (fs', None)"
  shows "\<exists>qs b. process_pages R vlm (fst f) 0 (pdf_to_images (snd f)) [] None = Inr (qs, b) \<and>
           store_file fs' =
             (if qs = [] then store_file fs
              else Some (Parsed (JArr (store_records (store_file fs) @ map JObj qs))))"
proof (cases "pdf_to_images (snd f) = []")
  case True
  with assms show ?thesis by (simp add: process_pdf_def)
next
  case False
  show ?thesis
  proof (cases "process_pages R vlm (fst f) 0 (pdf_to_images (snd f)) [] None")
    case (Inl e)
    with assms False show ?thesis by (simp add: process_pdf_def)
  next
    case (Inr r)
    obtain qs b where r: "r = (qs, b)" by (cases r)
    show ?thesis
    proof (cases "qs = []")
      case True
      with assms False Inr r show ?thesis by (simp add: process_pdf_def)
    next
      case ne: False
      obtain doc e where a: "append_to_json_file json_dump qs (store_file fs) = (doc, e)"
        by (cases "append_to_json_file json_dump qs (store_file fs)")
      obtain l e' where lg: "log_processed_file (fst f) (ledger_file fs) = (l, e')"
        by (cases "log_processed_file (fst f) (ledger_file fs)")
      from assms False Inr r ne a lg have e: "e = None" and f': "store_file fs' = doc"
        by (auto simp: process_pdf_def split: option.splits)
      from append_done[OF a[unfolded e]] f' ne Inr r show ?thesis by simp
    qed
  qed
qed

text \<open>
  C7. Take a file that the ledger does not hold, any page \<open>p\<close> of it, and a turn of the
  driver on it that ends without an exception. After the turn the Store is as it was
  when the file gave no record; otherwise its document is the sequence it held, then
  the records of the pages before \<open>p\<close>, then the records of \<open>p\<close>, then the records of
  the pages after \<open>p\<close>; and the records of \<open>p\<close> stand in the order, and at the
  positions, in which the extraction returned them for \<open>p\<close>.
\<close>

theorem stored_records_in_page_and_position_order:
  assumes "fst f \<notin> processed"
      and "pdf_to_images (snd f) = ps1 @ p # ps2"
      and "process_pdf json_dump R vlm processed f fs = (fs', None)"
  shows "\<exists>out1 buf1 new buf2 out2 buf3.
           process_pages R vlm (fst f) 0 ps1 [] None = Inr (out1, buf1) \<and>
           page_step R (fst f) (length ps1 + 1) buf1 (vlm p (current_prompt buf1)) = Inr (new, buf2) \<and>
           process_pages R vlm (fst f) (length ps1 + 1) ps2 [] buf2 = Inr (out2, buf3) \<and>
           as_returned_or_finalized R (fst f) (length ps1 + 1) new
             (returned (vlm p (current_prompt buf1))) \<and>
           store_file fs' =
             (if out1 @ new @ out2 = [] then store_file fs
              else Some (Parsed (JArr (store_records (store_file fs)
                                        @ map JObj out1 @ map JObj new @ map JObj out2))))"
proof -
  from process_pdf_done[OF assms(1,3)] assms(2) obtain qs b where
    run: "process_pages R vlm (fst f) 0 (ps1 @ p # ps2) [] None = Inr (qs, b)" and
    st: "store_file fs' =
           (if qs = [] then store_file fs
            else Some (Parsed (JArr (store_records (store_file fs) @ map JObj qs))))"
    by auto
  from process_pages_split[OF run] obtain out1 buf1 new buf2 out2 where
    "process_pages R vlm (fst f) 0 ps1 [] None = Inr ([] @ out1, buf1)"
    "page_step R (fst f) (0 + length ps1 + 1) buf1 (vlm p (current_prompt buf1)) = Inr (new, buf2)"
    "process_pages R vlm (fst f) (0 + length ps1 + 1) ps2 [] buf2 = Inr (out2, b)"
    "qs = [] @ out1 @ new @ out2"
    "as_returned_or_finalized R (fst f) (0 + length ps1 + 1) new
       (returned (vlm p (current_prompt buf1)))"
    by blast
  with st show ?thesis by (intro exI[of _ out1] exI[of _ buf1] exI[of _ new] exI[of _ buf2]
        exI[of _ out2] exI[of _ b]) simp
qed

lemmas run_eval_defs =
  main_def no_files_def process_pdf_def pdf_to_images_def append_to_json_file_def
  read_existing_def log_processed_file_def surrogate_dump_def has_surrogate_JArr

lemma exam_name_encodable: "\<not> unencodable exam_name"
  by (simp add: exam_name_def ascii_def unencodable_def surrogate_def)

lemma exam_turn:
  "process_pdf surrogate_dump no_repr exam_vlm {} (exam_name, Document [Some 1, Some 2]) no_files =
     (\<lparr>store_file = Some (Parsed (JArr [JObj (finalize no_repr exam_name 1 q1), JObj q2_full,
                                         JObj (finalize no_repr exam_name 2 q3)])),
       ledger_file = Some (exam_name @ [10])\<rparr>, None)"
  by (simp add: run_eval_defs exam_pages exam_records_encodable exam_name_encodable
      del: process_pages.simps has_surrogate.simps)

text \<open>
  The scenario of the specification, from an empty result directory, split at page 2:
  the Store's document is the first question from page 1, then the completed second and
  the third from page 2, in the order the extraction returned them.
\<close>

theorem stored_records_in_page_and_position_order_witness:
  "fst (exam_name, Document [Some (1::int), Some 2]) \<notin> {} \<and>
   pdf_to_images (snd (exam_name, Document [Some (1::int), Some 2])) = [1] @ 2 # [] \<and>
   process_pdf surrogate_dump no_repr exam_vlm {} (exam_name, Document [Some 1, Some 2]) no_files =
     (\<lparr>store_file = Some (Parsed (JArr [JObj (finalize no_repr exam_name 1 q1), JObj q2_full,
                                         JObj (finalize no_repr exam_name 2 q3)])),
       ledger_file = Some (exam_name @ [10])\<rparr>, None) \<and>
   (\<exists>out1 buf1 new buf2 out2 buf3.
      process_pages no_repr exam_vlm exam_name 0 [1] [] None = Inr (out1, buf1) \<and>
      page_step no_repr exam_name (length [1::int] + 1) buf1 (exam_vlm 2 (current_prompt buf1)) =
        Inr (new, buf2) \<and>
      process_pages no_repr exam_vlm exam_name (length [1::int] + 1) [] [] buf2 = Inr (out2, buf3) \<and>
      as_returned_or_finalized no_repr exam_name (length [1::int] + 1) new
        (returned (exam_vlm 2 (current_prompt buf1))) \<and>
      Some (Parsed (JArr [JObj (finalize no_repr exam_name 1 q1), JObj q2_full,
                          JObj (finalize no_repr exam_name 2 q3)])) =
        (if out1 @ new @ out2 = [] then store_file no_files
         else Some (Parsed (JArr (store_records (store_file no_files)
                                   @ map JObj out1 @ map JObj new @ map JObj out2)))))"
proof -
  have n: "fst (exam_name, Document [Some (1::int), Some 2]) \<notin> {}" by simp
  have p: "pdf_to_images (snd (exam_name, Document [Some (1::int), Some 2])) = [1] @ 2 # []"
    by (simp add: pdf_to_images_def)
  from stored_records_in_page_and_position_order[OF n p exam_turn]
  obtain out1 buf1 new buf2 out2 buf3 where
    "process_pages no_repr exam_vlm exam_name 0 [1] [] None = Inr (out1, buf1)"
    "page_step no_repr exam_name (length [1::int] + 1) buf1 (exam_vlm 2 (current_prompt buf1)) =
       Inr (new, buf2)"
    "process_pages no_repr exam_vlm exam_name (length [1::int] + 1) [] [] buf2 = Inr (out2, buf3)"
    "as_returned_or_finalized no_repr exam_name (length [1::int] + 1) new
       (returned (exam_vlm 2 (current_prompt buf1)))"
    "Some (Parsed (JArr [JObj (finalize no_repr exam_name 1 q1), JObj q2_full,
                          JObj (finalize no_repr exam_name 2 q3)])) =
        (if out1 @ new @ out2 = [] then store_file no_files
         else Some (Parsed (JArr (store_records (store_file no_files)
                                   @ map JObj out1 @ map JObj new @ map JObj out2))))"
    unfolding fst_conv snd_conv files.simps by blast
  with n p exam_turn show ?thesis by blast
qed

section \<open>The merged completion (C10)\<close>

text \<open>
  C10. When the buffer holds a fragment and the extraction returns a non-empty list, the
  first record returned is appended as it is and \<open>is_question_incomplete\<close> is not asked
  about it: a page that returns this record alone appends it and leaves the buffer
  empty, so the next page is extracted with the base prompt; in general the record
  heads what the page appends, and the buffer after the page is empty or holds the last
  of the other records, never the first.
\<close>

theorem merged_completion_appended_untested:
  assumes "buffer_set buf"
  shows "page_step R name page buf (Some [r]) = Inr ([r], None) \<and>
         (vlm img (current_prompt buf) = Some [r] \<longrightarrow>
            process_pages R vlm name i (img # imgs) acc buf =
              process_pages R vlm name (i + 1) imgs (acc @ [r]) None) \<and>
         (\<forall>new buf'. page_step R name page buf (Some (r # rs)) = Inr (new, buf') \<longrightarrow>
            (\<exists>fin. new = r # fin \<and> finalize_remaining R name page rs None = Inr (fin, buf')) \<and>
            (buf' = None \<or> (rs \<noteq> [] \<and> buf' = Some (last rs))))"
  using assms
  by (auto simp: page_step_def finalize_remaining_def split: sum.splits if_splits)

lemma q2_cut_buffered: "buffer_set (Some q2_cut)"
  by (simp add: buffer_set_def q2_cut_nonempty)

lemma three_pages:
  "process_pages no_repr three_page_vlm exam_name 0 [1, 2, 3] [] None =
     Inr ([q2_still_cut, finalize no_repr exam_name 3 q3], None)"
  by (simp add: three_page_vlm_def page_eval_defs incomplete_evals numeral_3_eq_3)

text \<open>
  A question over three pages: the completion returned for page 2 is itself judged
  incomplete by the test, and is appended all the same; page 3 is extracted with the
  base prompt and the file's list holds the cut question.
\<close>

theorem merged_completion_appended_untested_witness:
  "buffer_set (Some q2_cut) \<and>
   is_question_incomplete q2_still_cut = Inr True \<and>
   page_step no_repr exam_name 2 (Some q2_cut) (Some [q2_still_cut]) = Inr ([q2_still_cut], None) \<and>
   process_pages no_repr three_page_vlm exam_name 0 [1, 2, 3] [] None =
     Inr ([q2_still_cut, finalize no_repr exam_name 3 q3], None)"
proof -
  have "page_step no_repr exam_name 2 (Some q2_cut) (Some [q2_still_cut]) = Inr ([q2_still_cut], None)"
    using merged_completion_appended_untested[OF q2_cut_buffered,
        where R = no_repr and name = exam_name and page = 2 and r = q2_still_cut]
    by (rule conjunct1)
  with q2_cut_buffered incomplete_q2_still_cut three_pages show ?thesis by blast
qed

section \<open>A pending fragment and an empty page (C2)\<close>

text \<open>
  C2, as amended. When a fragment is pending and the extraction of a page fails or
  returns no record, the page appends nothing and the fragment stays pending, unchanged:
  the loop goes on to the next page with the same list and the same fragment, whose
  extraction gets the continuation prompt built from it.
\<close>

theorem pending_kept_over_empty_page:
  assumes "f \<noteq> []"
      and "vlm img (Continuation f) = None \<or> vlm img (Continuation f) = Some []"
  shows "current_prompt (Some f) = Continuation f \<and>
         page_step R name (i + 1) (Some f) (vlm img (Continuation f)) = Inr ([], Some f) \<and>
         process_pages R vlm name i (img # imgs) acc (Some f) =
           process_pages R vlm name (i + 1) imgs acc (Some f)"
  using assms by (auto simp: current_prompt_def page_step_def)

lemma gap_page_2: "gap_vlm 2 (Continuation q2_cut) = None"
  by (simp add: gap_vlm_def)

lemma gap_pages:
  "process_pages no_repr gap_vlm exam_name 0 [1, 2, 3] [] None = Inr ([q2_full], None)"
  by (simp add: gap_vlm_def page_eval_defs incomplete_evals)

text \<open>The cut second question is pending when the call for page 2 fails.\<close>

theorem pending_kept_over_empty_page_witness:
  "q2_cut \<noteq> [] \<and> gap_vlm 2 (Continuation q2_cut) = None \<and>
   current_prompt (Some q2_cut) = Continuation q2_cut \<and>
   page_step no_repr exam_name (1 + 1) (Some q2_cut) (gap_vlm 2 (Continuation q2_cut)) =
     Inr ([], Some q2_cut) \<and>
   process_pages no_repr gap_vlm exam_name 1 (2 # [3]) [] (Some q2_cut) =
     process_pages no_repr gap_vlm exam_name (1 + 1) [3] [] (Some q2_cut)"
proof -
  have h: "gap_vlm 2 (Continuation q2_cut) = None \<or> gap_vlm 2 (Continuation q2_cut) = Some []"
    using gap_page_2 by simp
  from pending_kept_over_empty_page[where f = q2_cut and vlm = gap_vlm and img = 2 and R = no_repr
      and name = exam_name and i = 1 and imgs = "[3]" and acc = "[]", OF q2_cut_nonempty h]
    q2_cut_nonempty gap_page_2
  show ?thesis by blast
qed

text \<open>
  The claim as stated fails on a file of three pages: page 1 leaves the cut question
  pending, the call for page 2 fails, and the buffer after page 2 is not empty. Page 3
  is extracted with the continuation prompt: the file's list is the completion the
  service returns for that prompt, not the record it returns for the base prompt.
\<close>

theorem pending_dropped_counterexample:
  "gap_vlm 2 (current_prompt (Some q2_cut)) = None \<and>
   page_step no_repr exam_name 2 (Some q2_cut) (gap_vlm 2 (current_prompt (Some q2_cut)))
     \<noteq> Inr ([], None) \<and>
   process_pages no_repr gap_vlm exam_name 0 [1, 2, 3] [] None = Inr ([q2_full], None) \<and>
   gap_vlm 3 Base = Some [q3]"
  using gap_pages by (simp add: gap_vlm_def page_eval_defs del: process_pages.simps has_surrogate.simps)

section \<open>The ledger and the Store (C4)\<close>

lemma first_page_pages:
  "process_pages no_repr first_page_vlm name 0 [1] [] None = Inr ([finalize no_repr name 1 q1], None)"
  "process_pages no_repr first_page_vlm name 0 [1, 2] [] None = Inr ([finalize no_repr name 1 q1], None)"
  by (simp_all add: first_page_vlm_def page_eval_defs incomplete_evals)

lemma load_none: "load_processed_files None = {}"
  by (simp add: load_processed_files_def)

lemma load_exam:
  "load_processed_files (Some (exam_name @ [10])) = {exam_name}"
  by (simp add: load_processed_files_def file_lines_def exam_name_def ascii_def py_strip_def
      py_isspace_def)

text \<open>
  C4. A file of three pages whose second page cannot be rasterized: the run renders
  page 1 only, so the record set it produces for the file is partial, and after the run
  the ledger, as \<open>load_processed_files\<close> reads it, holds the file's name.
\<close>

theorem partly_rendered_file_enters_ledger:
  "pdf_to_images (Document [Some 1, None, Some (3::int)]) = [1] \<and>
   main surrogate_dump no_repr first_page_vlm [(exam_name, Document [Some 1, None, Some 3])] no_files =
     (\<lparr>store_file = Some (Parsed (JArr [JObj (finalize no_repr exam_name 1 q1)])),
       ledger_file = Some (exam_name @ [10])\<rparr>, None) \<and>
   exam_name \<in> load_processed_files (Some (exam_name @ [10]))"
  by (simp add: run_eval_defs load_none load_exam first_page_pages exam_records_encodable
      exam_name_encodable del: process_pages.simps has_surrogate.simps)

section \<open>Runs in which the code and the specification part (C1, C3, C6)\<close>

lemma finalized_record_has_metadata:
  "map_of (finalize R name page q) (ascii ''source_pdf'') = Some (JStr name) \<and>
   map_of (finalize R name page q) (ascii ''source_page'') = Some (JInt (int page)) \<and>
   map_of (finalize R name page q) (ascii ''searchable_text'') = Some (JStr (searchable_text R q))"
proof -
  have k: "ascii ''source_pdf'' \<noteq> ascii ''source_page''"
    "ascii ''source_pdf'' \<noteq> ascii ''searchable_text''"
    "ascii ''source_page'' \<noteq> ascii ''searchable_text''"
    by (simp_all add: ascii_def)
  have "map_of (finalize R name page q) (ascii ''source_pdf'') = Some (JStr name)"
    using k by (simp add: finalize_def Let_def update_conv')
  moreover have "map_of (finalize R name page q) (ascii ''source_page'') = Some (JInt (int page))"
    using k by (simp add: finalize_def Let_def update_conv')
  ultimately show ?thesis by (simp add: finalize_searchable)
qed

text \<open>
  C1. The scenario of the specification, run by \<open>main\<close> from an empty result directory:
  the Store receives three records, and the second, the merged completion of page 2, is
  the record as the service returned it, with no \<open>source_pdf\<close>, no \<open>source_page\<close> and no
  \<open>searchable_text\<close>.
\<close>

theorem merged_record_stored_without_metadata:
  "main surrogate_dump no_repr exam_vlm [(exam_name, Document [Some 1, Some 2])] no_files =
     (\<lparr>store_file = Some (Parsed (JArr [JObj (finalize no_repr exam_name 1 q1), JObj q2_full,
                                         JObj (finalize no_repr exam_name 2 q3)])),
       ledger_file = Some (exam_name @ [10])\<rparr>, None) \<and>
   map_of q2_full (ascii ''source_pdf'') = None \<and>
   map_of q2_full (ascii ''source_page'') = None \<and>
   map_of q2_full (ascii ''searchable_text'') = None"
proof -
  have "main surrogate_dump no_repr exam_vlm [(exam_name, Document [Some 1, Some 2])] no_files =
     (\<lparr>store_file = Some (Parsed (JArr [JObj (finalize no_repr exam_name 1 q1), JObj q2_full,
                                         JObj (finalize no_repr exam_name 2 q3)])),
       ledger_file = Some (exam_name @ [10])\<rparr>, None)"
    by (simp add: run_eval_defs load_none exam_pages exam_records_encodable exam_name_encodable
        del: process_pages.simps has_surrogate.simps)
  moreover have "map_of q2_full (ascii ''source_pdf'') = None \<and>
   map_of q2_full (ascii ''source_page'') = None \<and>
   map_of q2_full (ascii ''searchable_text'') = None"
    by (simp add: q2_full_def ascii_def)
  ultimately show ?thesis by simp
qed

lemma file_without_first_image_skipped:
  "process_pdf json_dump R vlm P (name, Unopenable) fs = (fs, None)"
  "process_pdf json_dump R vlm P (name, Document (None # ps)) fs = (fs, None)"
  by (simp_all add: process_pdf_def pdf_to_images_def)

text \<open>
  C3. A file of two pages whose second page cannot be rasterized: \<open>pdf_to_images\<close>
  returns the image of page 1, the driver processes it, the Store receives its record
  and the ledger the file's name.
\<close>

theorem partly_rendered_file_is_processed:
  "pdf_to_images (Document [Some 1, None :: int option]) = [1] \<and>
   main surrogate_dump no_repr first_page_vlm [(exam_name, Document [Some 1, None])] no_files =
     (\<lparr>store_file = Some (Parsed (JArr [JObj (finalize no_repr exam_name 1 q1)])),
       ledger_file = Some (exam_name @ [10])\<rparr>, None)"
  by (simp add: run_eval_defs load_none first_page_pages exam_records_encodable
      exam_name_encodable del: process_pages.simps has_surrogate.simps)

lemma load_spaced:
  "load_processed_files (Some (spaced_name @ [10])) = {ascii ''a.pdf''}"
  by (simp add: load_processed_files_def file_lines_def spaced_name_def ascii_def py_strip_def
      py_isspace_def)

lemma spaced_not_logged: "spaced_name \<noteq> ascii ''a.pdf''"
  by (simp add: spaced_name_def ascii_def)

lemma spaced_encodable:
  "\<not> unencodable spaced_name"
  "\<not> has_surrogate (JObj (finalize no_repr spaced_name page q1))"
  by (simp_all add: finalize_def searchable_text_def py_format_def dict_get_def Let_def
      q1_def spaced_name_def ascii_def unencodable_def surrogate_def)

text \<open>
  C6. A directory with one file whose name begins with a space. The first run stores
  its record and writes the name to the ledger; read back, the line is stripped and is
  no longer the file's name, so the second run processes the file again and the Store
  holds the record twice.
\<close>

theorem second_run_reprocesses_spaced_name:
  "main surrogate_dump no_repr first_page_vlm [(spaced_name, Document [Some 1])] no_files = (spaced_after_first, None) \<and>
   main surrogate_dump no_repr first_page_vlm [(spaced_name, Document [Some 1])] spaced_after_first =
     (\<lparr>store_file = Some (Parsed (JArr [JObj (finalize no_repr spaced_name 1 q1),
                                         JObj (finalize no_repr spaced_name 1 q1)])),
       ledger_file = Some (spaced_name @ [10] @ spaced_name @ [10])\<rparr>, None)"
proof -
  have 1: "main surrogate_dump no_repr first_page_vlm [(spaced_name, Document [Some 1])] no_files =
             (spaced_after_first, None)"
    by (simp add: run_eval_defs spaced_after_first_def load_none first_page_pages
        spaced_encodable del: process_pages.simps has_surrogate.simps)
  have 2: "main surrogate_dump no_repr first_page_vlm [(spaced_name, Document [Some 1])] spaced_after_first =
     (\<lparr>store_file = Some (Parsed (JArr [JObj (finalize no_repr spaced_name 1 q1),
                                         JObj (finalize no_repr spaced_name 1 q1)])),
       ledger_file = Some (spaced_name @ [10] @ spaced_name @ [10])\<rparr>, None)"
    by (simp add: run_eval_defs spaced_after_first_def load_spaced spaced_not_logged
        first_page_pages spaced_encodable del: process_pages.simps has_surrogate.simps)
  from 1 2 show ?thesis by simp
qed

lemma universal_newlines_append:
  "tx = [] \<or> last tx \<noteq> 13 \<Longrightarrow>
   universal_newlines (tx @ r) = universal_newlines tx @ universal_newlines r"
proof (induction tx rule: universal_newlines.induct)
  case 1
  show ?case by simp
next
  case (2 c)
  then show ?case by (cases r) auto
next
  case (3 c d cs)
  then show ?case by (cases cs) (auto split: if_splits)
qed

lemma universal_newlines_clean:
  "13 \<notin> set n \<Longrightarrow> universal_newlines n = n"
  by (induction n rule: universal_newlines.induct) auto

lemma universal_newlines_last:
  "tx \<noteq> [] \<Longrightarrow> last tx = 10 \<Longrightarrow>
   universal_newlines tx \<noteq> [] \<and> last (universal_newlines tx) = 10"
  by (induction tx rule: universal_newlines.induct) (auto split: if_splits)

lemma lines_from_append:
  "a \<noteq> [] \<Longrightarrow> last a = 10 \<Longrightarrow> lines_from cur (a @ b) = lines_from cur a @ lines_from [] b"
proof (induction a arbitrary: cur)
  case Nil
  then show ?case by simp
next
  case (Cons c a)
  then show ?case by (cases "a = []") (auto split: if_splits)
qed

lemma lines_from_clean:
  "10 \<notin> set n \<Longrightarrow> lines_from cur (n @ [10]) = [cur @ n @ [10]]"
  by (induction n arbitrary: cur) auto

lemma file_lines_logged:
  assumes "tx = [] \<or> last tx = 10" and "10 \<notin> set n" and "13 \<notin> set n"
  shows "file_lines (tx @ n @ [10]) = file_lines tx @ [n @ [10]]"
proof (cases "tx = []")
  case True
  with assms show ?thesis
    using universal_newlines_clean[of "n @ [10]"] lines_from_clean[of n "[]"]
    by (simp add: file_lines_def)
next
  case False
  with assms have l: "last tx = 10" by simp
  then have "last tx \<noteq> 13" by simp
  then have "universal_newlines (tx @ n @ [10]) = universal_newlines tx @ (n @ [10])"
    using universal_newlines_append[of tx "n @ [10]"] universal_newlines_clean[of "n @ [10]"] assms
    by simp
  with universal_newlines_last[OF False l] lines_from_clean[OF assms(2), of "[]"]
  show ?thesis
    by (simp add: file_lines_def lines_from_append)
qed

lemma py_strip_newline: "py_strip (n @ [10]) = py_strip n"
proof -
  have sp: "py_isspace 10" by (simp add: py_isspace_def)
  show ?thesis
  proof (cases "\<forall>c \<in> set n. py_isspace c")
    case True
    then have a: "dropWhile py_isspace n = []" by simp
    from True sp have b: "dropWhile py_isspace (n @ [10]) = []" by (simp add: dropWhile_append)
    show ?thesis unfolding py_strip_def a b by simp
  next
    case False
    then have "dropWhile py_isspace (n @ [10]) = dropWhile py_isspace n @ [10]"
      by (auto simp: dropWhile_append)
    with sp show ?thesis by (simp add: py_strip_def)
  qed
qed

lemma load_logged:
  assumes "ledger_ok ledger" and "clean_name n" and "log_processed_file n ledger = (l, None)"
  shows "load_processed_files l = insert n (load_processed_files ledger) \<and> ledger_ok l \<and> l \<noteq> ledger"
proof -
  from assms(2) have c: "py_strip n = n" "10 \<notin> set n" "13 \<notin> set n"
    by (simp_all add: clean_name_def)
  show ?thesis
  proof (cases ledger)
    case None
    with assms(3) have l: "l = Some (n @ [10])"
      by (auto simp: log_processed_file_def split: if_splits)
    with None c file_lines_logged[of "[]" n] show ?thesis
      by (simp add: load_processed_files_def py_strip_newline file_lines_def ledger_ok_def)
  next
    case (Some tx)
    with assms(3) have l: "l = Some (tx @ n @ [10])"
      by (auto simp: log_processed_file_def split: if_splits)
    from Some assms(1) have "tx = [] \<or> last tx = 10" by (simp add: ledger_ok_def)
    from file_lines_logged[OF this c(2,3)] Some c(1) l show ?thesis
      by (simp add: load_processed_files_def py_strip_newline ledger_ok_def)
  qed
qed

lemma process_pdf_skip: "fst f \<in> P \<Longrightarrow> process_pdf json_dump R vlm P f s = (s, None)"
  by (simp add: process_pdf_def)

lemma process_pdf_turn:
  assumes "process_pdf json_dump R vlm P f s = (s', None)"
  shows "s' = s \<or>
         (fst f \<notin> P \<and> log_processed_file (fst f) (ledger_file s) = (ledger_file s', None))"
proof (cases "fst f \<in> P")
  case True
  with assms show ?thesis by (simp add: process_pdf_skip)
next
  case False
  show ?thesis
  proof (cases "process_pages R vlm (fst f) 0 (pdf_to_images (snd f)) [] None")
    case (Inl e)
    with assms False show ?thesis by (simp add: process_pdf_def Let_def split: if_splits)
  next
    case (Inr r)
    obtain qs b where r: "r = (qs, b)" by (cases r)
    obtain doc e where a: "append_to_json_file json_dump qs (store_file s) = (doc, e)"
      by (cases "append_to_json_file json_dump qs (store_file s)")
    obtain l e' where lg: "log_processed_file (fst f) (ledger_file s) = (l, e')"
      by (cases "log_processed_file (fst f) (ledger_file s)")
    from assms False Inr r a lg show ?thesis
      by (auto simp: process_pdf_def Let_def split: if_splits option.splits)
  qed
qed

lemma process_pdf_ledger:
  assumes "process_pdf json_dump R vlm P f s = (s', None)"
      and "ledger_ok (ledger_file s)" and "clean_name (fst f)"
  shows "ledger_ok (ledger_file s') \<and>
         load_processed_files (ledger_file s) \<subseteq> load_processed_files (ledger_file s') \<and>
         load_processed_files (ledger_file s') \<subseteq> insert (fst f) (load_processed_files (ledger_file s))"
  using process_pdf_turn[OF assms(1)] assms(2) load_logged[OF assms(2,3)]
  by auto

lemma process_pdfs_ledger:
  assumes "process_pdfs json_dump R vlm P fls s = (s1, None)" and "ledger_ok (ledger_file s)"
      and "\<forall>f \<in> set fls. clean_name (fst f)"
  shows "ledger_ok (ledger_file s1) \<and>
         load_processed_files (ledger_file s) \<subseteq> load_processed_files (ledger_file s1)"
  using assms
proof (induction fls arbitrary: s)
  case Nil
  then show ?case by simp
next
  case (Cons f fls)
  obtain s' e where t: "process_pdf json_dump R vlm P f s = (s', e)"
    by (cases "process_pdf json_dump R vlm P f s")
  with Cons.prems(1) have e: "e = None" by (cases e) simp_all
  from process_pdf_ledger[OF t[unfolded e] Cons.prems(2)] Cons.prems(3)
  have l: "ledger_ok (ledger_file s')"
    "load_processed_files (ledger_file s) \<subseteq> load_processed_files (ledger_file s')" by auto
  from t e Cons.prems(1) have "process_pdfs json_dump R vlm P fls s' = (s1, None)" by simp
  from Cons.IH[OF this l(1)] Cons.prems(3) l(2) show ?case by auto
qed

lemma process_pdf_nothing_again:
  assumes "process_pdf json_dump R vlm P f s = (s, None)" and "fst f \<notin> P"
      and "ledger_ok (ledger_file s)" and "clean_name (fst f)"
  shows "process_pdf json_dump R vlm P1 f s1 = (s1, None)"
proof (cases "fst f \<in> P1")
  case True
  then show ?thesis by (rule process_pdf_skip)
next
  case False
  from process_pdf_turn[OF assms(1)] load_logged[OF assms(3,4)]
  have nl: "log_processed_file (fst f) (ledger_file s) \<noteq> (ledger_file s, None)" by auto
  show ?thesis
  proof (cases "process_pages R vlm (fst f) 0 (pdf_to_images (snd f)) [] None")
    case (Inl e)
    with assms(1,2) show ?thesis by (simp add: process_pdf_def Let_def split: if_splits)
  next
    case (Inr r)
    obtain qs b where r: "r = (qs, b)" by (cases r)
    show ?thesis
    proof (cases "qs = []")
      case True
      with Inr r False show ?thesis by (simp add: process_pdf_def Let_def)
    next
      case ne: False
      obtain doc e where a: "append_to_json_file json_dump qs (store_file s) = (doc, e)"
        by (cases "append_to_json_file json_dump qs (store_file s)")
      obtain l e' where lg: "log_processed_file (fst f) (ledger_file s) = (l, e')"
        by (cases "log_processed_file (fst f) (ledger_file s)")
      from assms(1,2) Inr r ne a lg have "e' = None \<and> ledger_file s = l"
        by (auto simp: process_pdf_def Let_def split: if_splits option.splits
            dest: arg_cong[where f = ledger_file])
      with lg nl show ?thesis by simp
    qed
  qed
qed

lemma second_pass:
  assumes "process_pdfs json_dump R vlm P fls s = (s1, None)"
      and "ledger_ok (ledger_file s)"
      and "\<forall>f \<in> set fls. clean_name (fst f)"
      and "distinct (map fst fls)"
      and "\<forall>f \<in> set fls. fst f \<in> load_processed_files (ledger_file s) \<longrightarrow> fst f \<in> P"
      and "\<forall>f \<in> set fls. (fst f \<in> P1) = (fst f \<in> P \<or> fst f \<in> load_processed_files (ledger_file s1))"
  shows "process_pdfs json_dump R vlm P1 fls s1 = (s1, None)"
  using assms
proof (induction fls arbitrary: s)
  case Nil
  then show ?case by simp
next
  case (Cons f fls)
  obtain s' e where t0: "process_pdf json_dump R vlm P f s = (s', e)"
    by (cases "process_pdf json_dump R vlm P f s")
  with Cons.prems(1) have e: "e = None" by (cases e) simp_all
  note t = t0[unfolded e]
  have cl: "clean_name (fst f)" using Cons.prems(3) by simp
  have in1: "(fst f \<in> P1) = (fst f \<in> P \<or> fst f \<in> load_processed_files (ledger_file s1))"
    using Cons.prems(6) by simp
  have rest1: "\<forall>g \<in> set fls. (fst g \<in> P1) = (fst g \<in> P \<or> fst g \<in> load_processed_files (ledger_file s1))"
    using Cons.prems(6) by simp
  have restc: "\<forall>g \<in> set fls. clean_name (fst g)" using Cons.prems(3) by simp
  have restd: "distinct (map fst fls)" using Cons.prems(4) by simp
  from t Cons.prems(1) have run: "process_pdfs json_dump R vlm P fls s' = (s1, None)" by simp
  from process_pdf_ledger[OF t Cons.prems(2) cl]
  have ok': "ledger_ok (ledger_file s')"
    and sub: "load_processed_files (ledger_file s') \<subseteq> insert (fst f) (load_processed_files (ledger_file s))"
    by auto
  have fresh': "\<forall>g \<in> set fls. fst g \<in> load_processed_files (ledger_file s') \<longrightarrow> fst g \<in> P"
  proof (intro ballI impI)
    fix g assume g: "g \<in> set fls" and m: "fst g \<in> load_processed_files (ledger_file s')"
    from g Cons.prems(4) have "fst g \<noteq> fst f"
      by (metis distinct.simps(2) image_eqI list.simps(9) set_map)
    with m sub have "fst g \<in> load_processed_files (ledger_file s)" by auto
    with g Cons.prems(5) show "fst g \<in> P" by simp
  qed
  have ih: "process_pdfs json_dump R vlm P1 fls s1 = (s1, None)"
    by (rule Cons.IH[OF run ok' restc restd fresh' rest1])
  have "process_pdf json_dump R vlm P1 f s1 = (s1, None)"
  proof (cases "fst f \<in> P1")
    case True
    then show ?thesis by (rule process_pdf_skip)
  next
    case False
    with in1 have np: "fst f \<notin> P" and nl: "fst f \<notin> load_processed_files (ledger_file s1)" by simp_all
    from process_pdfs_ledger[OF run ok' restc]
    have "load_processed_files (ledger_file s') \<subseteq> load_processed_files (ledger_file s1)" by simp
    with nl have "fst f \<notin> load_processed_files (ledger_file s')" by auto
    with load_logged[OF Cons.prems(2) cl]
    have "log_processed_file (fst f) (ledger_file s) \<noteq> (ledger_file s', None)" by auto
    with process_pdf_turn[OF t] have "s' = s" by auto
    with t have "process_pdf json_dump R vlm P f s = (s, None)" by simp
    from process_pdf_nothing_again[OF this np Cons.prems(2) cl] show ?thesis .
  qed
  with ih show ?case by simp
qed

text \<open>
  Apart from such names the ledger does gate the second run: when the ledger's last
  line is complete, every file name of the directory is given back by the ledger as it
  was written, and the first run ends without an exception, a second run over the same
  directory leaves the Store and the ledger as the first run left them.
\<close>

lemma second_run_changes_nothing:
  assumes "ledger_ok (ledger_file fs)"
      and "\<forall>f \<in> set pdf_files. clean_name (fst f)"
      and "distinct (map fst pdf_files)"
      and "main json_dump R vlm pdf_files fs = (fs1, None)"
  shows "main json_dump R vlm pdf_files fs1 = (fs1, None)"
proof (cases "pdf_files = []")
  case True
  with assms(4) show ?thesis by (simp add: main_def)
next
  case False
  with assms(4) have run:
    "process_pdfs json_dump R vlm (load_processed_files (ledger_file fs)) pdf_files fs = (fs1, None)"
    by (simp add: main_def)
  from process_pdfs_ledger[OF run assms(1,2)]
  have sub: "load_processed_files (ledger_file fs) \<subseteq> load_processed_files (ledger_file fs1)"
    by simp
  have "process_pdfs json_dump R vlm (load_processed_files (ledger_file fs1)) pdf_files fs1 = (fs1, None)"
    by (rule second_pass[OF run assms(1,2,3)]) (use sub in auto)
  with False show ?thesis by (simp add: main_def)
qed

end
